theory Spec2Isabelle
  imports Main "HOL-Library.Sublist"
begin

section \<open>The rule \<open>file-extension-in-import\<close>\<close>

text \<open>
  A shallow embedding of \<^verbatim>\<open>lib/rules/file-extension-in-import.js\<close>. The rule looks at
  every import target of a file, works out the extension the import should carry and
  reports the specifier when its text disagrees with the configured style.

  JavaScript strings are modelled as \<open>string\<close> (one \<open>char\<close> per code unit), offsets into the
  source text as \<open>int\<close>. The rule calls \<^verbatim>\<open>extname\<close>, \<^verbatim>\<open>basename\<close> and \<^verbatim>\<open>dirname\<close> of
  Node's \<^verbatim>\<open>path\<close> module, which are not part of the repository: they are embedded as
  Node implements them for POSIX paths (\<^verbatim>\<open>lib/path.js\<close>), loop by loop, with \<open>/\<close> as the
  only separator. The file system is a parameter \<open>readdirSync\<close>, which returns \<open>None\<close>
  where \<^verbatim>\<open>fs.readdirSync\<close> throws. The import targets of a file come from the target
  enumerator, which is not part of the rule either: they are a field of the context.
\<close>

subsection \<open>JavaScript string primitives\<close>

text \<open>\<^verbatim>\<open>String.prototype.slice(start, end)\<close>: a negative index counts from the end, and
  both indices are clamped to the string.\<close>

definition slice :: "string \<Rightarrow> int \<Rightarrow> int \<Rightarrow> string" where
  "slice s a b =
     (let n = int (length s);
          from = (if a < 0 then max (n + a) 0 else min a n);
          to = (if b < 0 then max (n + b) 0 else min b n)
      in take (nat (to - from)) (drop (nat from) s))"

text \<open>\<^verbatim>\<open>String.prototype.startsWith\<close>.\<close>

definition startsWith :: "string \<Rightarrow> string \<Rightarrow> bool" where
  "startsWith s t = (take (length t) s = t)"

text \<open>\<^verbatim>\<open>String.prototype.lastIndexOf\<close>: the largest index at which the search string
  occurs, or \<open>-1\<close>. The search runs down from \<open>length s - length t\<close>.\<close>

fun lastIndexOf_from :: "string \<Rightarrow> string \<Rightarrow> nat \<Rightarrow> int" where
  "lastIndexOf_from s t 0 = (if take (length t) s = t then 0 else - 1)"
| "lastIndexOf_from s t (Suc k) =
     (if take (length t) (drop (Suc k) s) = t then int (Suc k)
      else lastIndexOf_from s t k)"

definition lastIndexOf :: "string \<Rightarrow> string \<Rightarrow> int" where
  "lastIndexOf s t =
     (if length s < length t then - 1 else lastIndexOf_from s t (length s - length t))"

subsection \<open>Node's \<open>path\<close> module (POSIX)\<close>

text \<open>
  \<^verbatim>\<open>path.extname\<close> scans the path from its last character down. The loop counter of the
  model is \<open>i + 1\<close> for the source's \<open>i\<close>; the loop leaves through \<^verbatim>\<open>break\<close> at the first
  separator that follows a path component. It returns
  \<open>(startDot, startPart, end, preDotState)\<close>.
\<close>

fun extname_loop ::
  "string \<Rightarrow> nat \<Rightarrow> int \<Rightarrow> int \<Rightarrow> int \<Rightarrow> bool \<Rightarrow> int \<Rightarrow> int \<times> int \<times> int \<times> int" where
  "extname_loop path 0 startDot startPart endIdx matchedSlash preDotState =
     (startDot, startPart, endIdx, preDotState)"
| "extname_loop path (Suc i) startDot startPart endIdx matchedSlash preDotState =
     (if path ! i = CHR ''/'' then
        (if \<not> matchedSlash then (startDot, int i + 1, endIdx, preDotState)
         else extname_loop path i startDot startPart endIdx matchedSlash preDotState)
      else
        (let matchedSlash' = (if endIdx = - 1 then False else matchedSlash);
             endIdx' = (if endIdx = - 1 then int i + 1 else endIdx)
         in if path ! i = CHR ''.'' then
              (if startDot = - 1 then
                 extname_loop path i (int i) startPart endIdx' matchedSlash' preDotState
               else if preDotState \<noteq> 1 then
                 extname_loop path i startDot startPart endIdx' matchedSlash' 1
               else extname_loop path i startDot startPart endIdx' matchedSlash' preDotState)
            else if startDot \<noteq> - 1 then
              extname_loop path i startDot startPart endIdx' matchedSlash' (- 1)
            else extname_loop path i startDot startPart endIdx' matchedSlash' preDotState))"

definition extname :: "string \<Rightarrow> string" where
  "extname path =
     (case extname_loop path (length path) (- 1) 0 (- 1) True 0 of
        (startDot, startPart, endIdx, preDotState) \<Rightarrow>
          if startDot = - 1 \<or> endIdx = - 1 \<or> preDotState = 0 \<or>
             (preDotState = 1 \<and> startDot = endIdx - 1 \<and> startDot = startPart + 1)
          then []
          else slice path startDot endIdx)"

text \<open>
  \<^verbatim>\<open>path.basename(path, ext)\<close>. With a non-empty \<open>ext\<close> no longer than the path, the loop
  matches \<open>ext\<close> backwards against the last component; otherwise the plain loop finds the
  last component. The loops return \<open>(start, end, firstNonSlashEnd)\<close> and \<open>(start, end)\<close>.
\<close>

fun basename_ext_loop ::
  "string \<Rightarrow> string \<Rightarrow> nat \<Rightarrow> int \<Rightarrow> int \<Rightarrow> bool \<Rightarrow> int \<Rightarrow> int \<Rightarrow> int \<times> int \<times> int" where
  "basename_ext_loop path ext 0 start endIdx matchedSlash extIdx firstNonSlashEnd =
     (start, endIdx, firstNonSlashEnd)"
| "basename_ext_loop path ext (Suc i) start endIdx matchedSlash extIdx firstNonSlashEnd =
     (if path ! i = CHR ''/'' then
        (if \<not> matchedSlash then (int i + 1, endIdx, firstNonSlashEnd)
         else basename_ext_loop path ext i start endIdx matchedSlash extIdx firstNonSlashEnd)
      else
        (let matchedSlash' = (if firstNonSlashEnd = - 1 then False else matchedSlash);
             firstNonSlashEnd' =
               (if firstNonSlashEnd = - 1 then int i + 1 else firstNonSlashEnd)
         in if 0 \<le> extIdx then
              (if path ! i = ext ! nat extIdx then
                 (if extIdx - 1 = - 1 then
                    basename_ext_loop path ext i start (int i) matchedSlash' (extIdx - 1)
                      firstNonSlashEnd'
                  else
                    basename_ext_loop path ext i start endIdx matchedSlash' (extIdx - 1)
                      firstNonSlashEnd')
               else
                 basename_ext_loop path ext i start firstNonSlashEnd' matchedSlash' (- 1)
                   firstNonSlashEnd')
            else
              basename_ext_loop path ext i start endIdx matchedSlash' extIdx
                firstNonSlashEnd'))"

fun basename_loop :: "string \<Rightarrow> nat \<Rightarrow> int \<Rightarrow> int \<Rightarrow> bool \<Rightarrow> int \<times> int" where
  "basename_loop path 0 start endIdx matchedSlash = (start, endIdx)"
| "basename_loop path (Suc i) start endIdx matchedSlash =
     (if path ! i = CHR ''/'' then
        (if \<not> matchedSlash then (int i + 1, endIdx)
         else basename_loop path i start endIdx matchedSlash)
      else if endIdx = - 1 then basename_loop path i start (int i + 1) False
      else basename_loop path i start endIdx matchedSlash)"

definition basename :: "string \<Rightarrow> string \<Rightarrow> string" where
  "basename path ext =
     (if 0 < length ext \<and> length ext \<le> length path then
        (if ext = path then []
         else
           (case basename_ext_loop path ext (length path) 0 (- 1) True
                   (int (length ext) - 1) (- 1) of
              (start, endIdx, firstNonSlashEnd) \<Rightarrow>
                slice path start
                  (if start = endIdx then firstNonSlashEnd
                   else if endIdx = - 1 then int (length path)
                   else endIdx)))
      else
        (case basename_loop path (length path) 0 (- 1) True of
           (start, endIdx) \<Rightarrow> if endIdx = - 1 then [] else slice path start endIdx))"

text \<open>\<^verbatim>\<open>path.dirname\<close>. The loop stops above index \<open>0\<close> (\<^verbatim>\<open>i >= 1\<close>) and returns \<open>end\<close>.\<close>

fun dirname_loop :: "string \<Rightarrow> nat \<Rightarrow> int \<Rightarrow> bool \<Rightarrow> int" where
  "dirname_loop path 0 endIdx matchedSlash = endIdx"
| "dirname_loop path (Suc i) endIdx matchedSlash =
     (if i < 1 then endIdx
      else if path ! i = CHR ''/'' then
        (if \<not> matchedSlash then int i
         else dirname_loop path i endIdx matchedSlash)
      else dirname_loop path i endIdx False)"

definition dirname :: "string \<Rightarrow> string" where
  "dirname path =
     (if length path = 0 then ''.''
      else
        (let hasRoot = (path ! 0 = CHR ''/'');
             endIdx = dirname_loop path (length path) (- 1) True
         in if endIdx = - 1 then (if hasRoot then ''/'' else ''.'')
            else if hasRoot \<and> endIdx = 1 then ''//''
            else slice path 0 endIdx))"

subsection \<open>Sibling discovery\<close>

text \<open>
  \<^verbatim>\<open>getExistingExtensions(filePath)\<close>: the extensions of the entries of the file's
  directory that have the file's base name, in listing order. A listing that throws is
  caught and gives the empty array.
\<close>

definition getExistingExtensions ::
  "(string \<Rightarrow> string list option) \<Rightarrow> string \<Rightarrow> string list" where
  "getExistingExtensions readdirSync filePath =
     (let basename' = basename filePath (extname filePath)
      in case readdirSync (dirname filePath) of
           None \<Rightarrow> []
         | Some entries \<Rightarrow>
             map (\<lambda>filename. extname filename)
               (filter (\<lambda>filename. basename filename (extname filename) = basename')
                  entries))"

subsection \<open>Targets, options and reports\<close>

datatype style = Always | Never

datatype messageId = requireExt | forbidExt

text \<open>A node carries its source span \<^verbatim>\<open>node.range\<close>; an import target is what the target
  enumerator hands to \<^verbatim>\<open>verify\<close>: the resolved path (\<open>None\<close> for \<^verbatim>\<open>null\<close>), the specifier
  text and the node.\<close>

record node =
  node_range :: "int \<times> int"

record target =
  filePath :: "string option"
  name :: string
  node :: node

text \<open>A fix is what the fixer builds: the range it replaces and the text it puts there
  (\<^verbatim>\<open>insertTextBeforeRange\<close> replaces an empty range, \<^verbatim>\<open>removeRange\<close> puts the empty
  text). The \<open>fix\<close> of a report is the value of its \<^verbatim>\<open>fix(fixer)\<close> function, \<open>None\<close> for
  \<^verbatim>\<open>null\<close>.\<close>

record fix_edit =
  fix_range :: "int \<times> int"
  fix_text :: string

record report =
  report_node :: node
  report_messageId :: messageId
  report_data_ext :: string
  report_fix :: "fix_edit option"

definition insertTextBeforeRange :: "int \<times> int \<Rightarrow> string \<Rightarrow> fix_edit" where
  "insertTextBeforeRange r text = \<lparr>fix_range = (fst r, fst r), fix_text = text\<rparr>"

definition removeRange :: "int \<times> int \<Rightarrow> fix_edit" where
  "removeRange r = \<lparr>fix_range = r, fix_text = []\<rparr>"

text \<open>The context of one run: the file name, the two rule options (either may be
  missing) and the target enumerator \<^verbatim>\<open>getImportExportTargets(context, node, opts)\<close>,
  which gives the import targets of a program node.\<close>

record rule_context =
  getFilename :: string
  option0 :: "style option"
  option1 :: "(string \<rightharpoonup> style) option"
  getImportExportTargets :: "node \<Rightarrow> target list"

definition defaultStyle :: "rule_context \<Rightarrow> style" where
  "defaultStyle ctx = (case option0 ctx of None \<Rightarrow> Always | Some s \<Rightarrow> s)"

definition overrideStyle :: "rule_context \<Rightarrow> (string \<rightharpoonup> style)" where
  "overrideStyle ctx = (case option1 ctx of None \<Rightarrow> Map.empty | Some m \<Rightarrow> m)"

subsection \<open>The check of one target\<close>

text \<open>The test \<^verbatim>\<open>/[/\\]/u.test(name)\<close>.\<close>

definition hasPathSeparator :: "string \<Rightarrow> bool" where
  "hasPathSeparator s = (CHR ''/'' \<in> set s \<or> CHR 0x5C \<in> set s)"

text \<open>Lines 80 to 84: the extension the import is measured against, \<open>None\<close> where
  \<^verbatim>\<open>verify\<close> returns early.\<close>

definition determineExt :: "string \<Rightarrow> string list \<Rightarrow> string option" where
  "determineExt resolvedExt existingExts =
     (if resolvedExt = [] \<and> length existingExts \<noteq> 1 then None
      else Some (if resolvedExt \<noteq> [] then resolvedExt else existingExts ! 0))"

text \<open>Line 85: \<^verbatim>\<open>overrideStyle[ext] || defaultStyle\<close>. The schema of the options gives
  every key of the overrides that can be an extension one of the two styles.\<close>

definition styleFor :: "rule_context \<Rightarrow> string \<Rightarrow> style" where
  "styleFor ctx ext = (case overrideStyle ctx ext of Some s \<Rightarrow> s | None \<Rightarrow> defaultStyle ctx)"

text \<open>Lines 88 to 116: the report for a target whose extension is \<open>ext\<close>.\<close>

definition decide ::
  "rule_context \<Rightarrow> string \<Rightarrow> node \<Rightarrow> string \<Rightarrow> string list \<Rightarrow> string \<Rightarrow> report option" where
  "decide ctx name' node' originalExt existingExts ext =
     (let style = styleFor ctx ext
      in if style = Always \<and> ext \<noteq> originalExt then
           Some \<lparr>report_node = node', report_messageId = requireExt, report_data_ext = ext,
                 report_fix =
                   (if length existingExts \<noteq> 1 then None
                    else
                      (let index = snd (node_range node') - 1
                       in Some (insertTextBeforeRange (index, index) ext)))\<rparr>
         else if style = Never \<and> ext = originalExt then
           Some \<lparr>report_node = node', report_messageId = forbidExt, report_data_ext = ext,
                 report_fix =
                   (if length existingExts \<noteq> 1 then None
                    else
                      (let index = lastIndexOf name' ext;
                           start = fst (node_range node') + 1 + index;
                           endOff = start + int (length ext)
                       in Some (removeRange (start, endOff))))\<rparr>
         else None)"

text \<open>\<^verbatim>\<open>verify\<close>: at most one report per target.\<close>

definition verify ::
  "(string \<Rightarrow> string list option) \<Rightarrow> rule_context \<Rightarrow> target \<Rightarrow> report option" where
  "verify readdirSync ctx t =
     (case filePath t of
        None \<Rightarrow> None
      | Some fp \<Rightarrow>
          if fp = [] \<or> \<not> hasPathSeparator (name t) then None
          else
            (let originalExt = extname (name t);
                 resolvedExt = extname fp;
                 existingExts = getExistingExtensions readdirSync fp
             in case determineExt resolvedExt existingExts of
                  None \<Rightarrow> None
                | Some ext \<Rightarrow> decide ctx (name t) (node t) originalExt existingExts ext))"

subsection \<open>The rule\<close>

text \<open>
  \<^verbatim>\<open>create(context)\<close> returns the visitor: the handlers by event name, each a function
  of the node it is fired on that gives the reports it makes. For a file name that starts
  with \<open><\<close> the visitor is empty; otherwise its one handler, for \<^verbatim>\<open>Program:exit\<close>, verifies
  each target of the program in turn. \<open>lint\<close> is the run of the rule by the host: it fires
  \<^verbatim>\<open>Program:exit\<close> once, on the program node, and collects the reports.
\<close>

definition create ::
  "(string \<Rightarrow> string list option) \<Rightarrow> rule_context \<Rightarrow>
   (string \<times> (node \<Rightarrow> report list)) list" where
  "create readdirSync ctx =
     (if startsWith (getFilename ctx) ''<'' then []
      else [(''Program:exit'',
             \<lambda>node'. concat (map (\<lambda>t. case verify readdirSync ctx t of
                                            None \<Rightarrow> [] | Some r \<Rightarrow> [r])
                                   (getImportExportTargets ctx node')))])"

definition lint ::
  "(string \<Rightarrow> string list option) \<Rightarrow> rule_context \<Rightarrow> node \<Rightarrow> report list" where
  "lint readdirSync ctx program =
     concat (map (\<lambda>h. snd h program)
               (filter (\<lambda>h. fst h = ''Program:exit'') (create readdirSync ctx)))"

subsection \<open>Applying a fix\<close>

text \<open>
  The host applies a fix by putting its text in the place of its range of the source.
  \<open>applyFix offset text f\<close> does this to a piece \<open>text\<close> of the source that starts at
  the absolute offset \<open>offset\<close> and holds the range. The node of a target spans the quoted
  name when it is the string literal of the specifier: a quote, the specifier text, a
  quote. \<open>fixedTarget\<close> is such a target after a fix inside the quotes: the resolved path
  is kept, the specifier text is the fixed one, and the node ends where the fixed literal
  ends.
\<close>

definition applyFix :: "int \<Rightarrow> string \<Rightarrow> fix_edit \<Rightarrow> string" where
  "applyFix offset text f =
     take (nat (fst (fix_range f) - offset)) text @ fix_text f @
     drop (nat (snd (fix_range f) - offset)) text"

definition spansQuotedName :: "target \<Rightarrow> bool" where
  "spansQuotedName t =
     (snd (node_range (node t)) = fst (node_range (node t)) + int (length (name t)) + 2)"

definition fixedTarget :: "target \<Rightarrow> fix_edit \<Rightarrow> target" where
  "fixedTarget t f =
     (let fixed = applyFix (fst (node_range (node t)) + 1) (name t) f
      in t\<lparr>name := fixed,
           node := \<lparr>node_range = (fst (node_range (node t)),
                                   fst (node_range (node t)) + int (length fixed) + 2)\<rparr>\<rparr>)"

subsection \<open>Parts of a path\<close>

text \<open>
  The separators at the end of a path, and the path without them.
\<close>

definition trailingSlashes :: "string \<Rightarrow> string" where
  "trailingSlashes s = rev (takeWhile (\<lambda>c. c = CHR ''/'') (rev s))"

definition stripTrailingSlashes :: "string \<Rightarrow> string" where
  "stripTrailingSlashes s = rev (dropWhile (\<lambda>c. c = CHR ''/'') (rev s))"

text \<open>
  What \<open>extname\<close> computes, read off the reversed path with list functions: drop the
  separators at the end, take the last component, take its characters behind the last
  dot. There is no extension when the component has no dot, starts with its last dot or
  is \<open>..\<close>. Lemma \<open>extname_eq_spec\<close> proves that the loop computes this.
\<close>

definition extname_spec :: "string \<Rightarrow> string" where
  "extname_spec path =
     (let q = dropWhile (\<lambda>c. c = CHR ''/'') (rev path);
          c = takeWhile (\<lambda>c. c \<noteq> CHR ''/'') q;
          b = takeWhile (\<lambda>c. c \<noteq> CHR ''.'') c
      in if length b = length c \<or> length c = length b + 1 \<or> c = ''..'' then []
         else CHR ''.'' # rev b)"

subsection \<open>A small project to run the rule on\<close>

text \<open>
  A directory \<open>/p\<close> with the files \<open>a.js\<close>, \<open>b.js\<close>, \<open>b.ts\<close>, \<open>c\<close>, \<open>d.js.js\<close> and \<open>e.ts\<close>
  and the directory \<open>lib\<close>, which holds \<open>index.js\<close>; every other directory fails to
  list.
  \<open>importOf\<close> is the target of a specifier literal that starts at a given offset and
  spans the quoted specifier text.
\<close>

definition project :: "string \<Rightarrow> string list option" where
  "project dir =
     (if dir = ''/p'' then Some [''a.js'', ''b.js'', ''b.ts'', ''c'', ''d.js.js'', ''e.ts'', ''lib'']
      else if dir = ''/p/lib'' then Some [''index.js'']
      else None)"

definition importOf :: "string \<Rightarrow> string \<Rightarrow> int \<Rightarrow> target" where
  "importOf fp specifier offset =
     \<lparr>filePath = Some fp, name = specifier,
      node = \<lparr>node_range = (offset, offset + int (length specifier) + 2)\<rparr>\<rparr>"

definition plainOptions :: rule_context where
  "plainOptions =
     \<lparr>getFilename = ''/p/main.js'', option0 = None, option1 = None,
      getImportExportTargets = (\<lambda>program. [])\<rparr>"

definition neverOptions :: rule_context where
  "neverOptions = plainOptions\<lparr>option0 := Some Never\<rparr>"


section \<open>Properties\<close>

subsection \<open>Evaluating the rule on the project\<close>

lemma siblings_a: "getExistingExtensions project ''/p/a.js'' = [''.js'']"
  by code_simp

lemma siblings_b: "getExistingExtensions project ''/p/b.js'' = [''.js'', ''.ts'']"
  by code_simp

lemma siblings_c: "getExistingExtensions project ''/p/c'' = [[]]"
  by code_simp

lemma siblings_e: "getExistingExtensions project ''/p/e'' = [''.ts'']"
  by code_simp

lemma siblings_index: "getExistingExtensions project ''/p/lib/index.js'' = [''.js'']"
  by code_simp

lemma siblings_missing: "getExistingExtensions project ''/p/zz'' = []"
  by code_simp

lemma extname_values:
  "extname ''/p/a.js'' = ''.js''" "extname ''./a.js'' = ''.js''" "extname ''./a'' = []"
  "extname ''/p/b.js'' = ''.js''" "extname ''./b'' = []" "extname ''/p/c'' = []"
  "extname ''/p/e'' = []" "extname ''./e'' = []" "extname ''/p/zz'' = []"
  by code_simp+

subsection \<open>The extension of a path\<close>

text \<open>
  The loop of \<open>extname\<close> goes through three phases: the separators at the end of the
  path, the characters behind the last dot of the last component, and the rest of that
  component. Each phase is described by what it has read.
\<close>

lemma rev_take_Suc: "n < length p \<Longrightarrow> rev (take (Suc n) p) = p ! n # rev (take n p)"
  by (simp add: take_Suc_conv_app_nth)

lemma extname_loop_after_dot:
  assumes "n \<le> length path" and "startDot \<noteq> - 1" and "endIdx \<noteq> - 1"
  shows "extname_loop path n startDot startPart endIdx False preDotState =
     (let t = takeWhile (\<lambda>c. c \<noteq> CHR ''/'') (rev (take n path))
      in (startDot, (if length t = n then startPart else int (n - length t)), endIdx,
          (if t = [] then preDotState else if last t = CHR ''.'' then 1 else - 1)))"
  using assms
proof (induction n arbitrary: preDotState)
  case 0
  then show ?case by simp
next
  case (Suc n)
  then have n: "n < length path" "n \<le> length path" by simp_all
  show ?case
    using Suc.prems(2,3)
    by (simp add: rev_take_Suc [OF n(1)] Suc.IH [OF n(2) Suc.prems(2,3)] Let_def)
qed

lemma extname_loop_before_dot:
  assumes "n \<le> length path" and "endIdx \<noteq> - 1"
  shows "extname_loop path n (- 1) startPart endIdx False preDotState =
     (let c = takeWhile (\<lambda>c. c \<noteq> CHR ''/'') (rev (take n path));
          b = takeWhile (\<lambda>c. c \<noteq> CHR ''.'') c;
          sp = (if length c = n then startPart else int (n - length c))
      in if length b = length c then (- 1, sp, endIdx, preDotState)
         else (int n - int (length b) - 1, sp, endIdx,
               (if length c = length b + 1 then preDotState
                else if last c = CHR ''.'' then 1 else - 1)))"
  using assms
proof (induction n)
  case 0
  then show ?case by simp
next
  case (Suc n)
  then have n: "n < length path" "n \<le> length path" by simp_all
  have d: "int n \<noteq> - 1" by simp
  show ?case
    using Suc.prems(2)
    by (simp add: rev_take_Suc [OF n(1)] Suc.IH [OF n(2) Suc.prems(2)]
        extname_loop_after_dot [OF n(2) d Suc.prems(2)] Let_def)
qed

lemma extname_loop_trailing:
  assumes "n \<le> length path"
  shows "extname_loop path n (- 1) 0 (- 1) True 0 =
     (let m = length (dropWhile (\<lambda>c. c = CHR ''/'') (rev (take n path)))
      in if m = 0 then (- 1, 0, - 1, 0)
         else extname_loop path m (- 1) 0 (int m) False 0)"
  using assms
proof (induction n)
  case 0
  then show ?case by simp
next
  case (Suc n)
  then have n: "n < length path" "n \<le> length path" by simp_all
  have m: "min (length path) n = n" using n by simp
  show ?case
    by (simp add: rev_take_Suc [OF n(1)] Suc.IH [OF n(2)] Let_def m add.commute)
qed

lemma rev_take_dropWhile_rev:
  "rev (take (length (dropWhile P (rev p))) p) = dropWhile P (rev p)"
proof -
  have "rev p = takeWhile P (rev p) @ dropWhile P (rev p)" by simp
  then have "p = rev (dropWhile P (rev p)) @ rev (takeWhile P (rev p))"
    by (metis rev_append rev_rev_ident)
  then have "take (length (dropWhile P (rev p))) p = rev (dropWhile P (rev p))"
    by (metis append_eq_conv_conj length_rev)
  then show ?thesis by simp
qed

lemma takeWhile_shorter:
  assumes "length (takeWhile P c) \<noteq> length c"
  obtains c1 where "c = takeWhile P c @ hd (dropWhile P c) # c1"
    and "\<not> P (hd (dropWhile P c))"
proof -
  from assms have ne: "dropWhile P c \<noteq> []"
    by (metis takeWhile_eq_all_conv dropWhile_eq_Nil_conv)
  then have "\<not> P (hd (dropWhile P c))" by (rule hd_dropWhile)
  moreover have "c = takeWhile P c @ hd (dropWhile P c) # tl (dropWhile P c)"
    using ne by simp
  ultimately show ?thesis using that by blast
qed

lemma extname_eq_spec: "extname path = extname_spec path"
proof -
  define q where "q = dropWhile (\<lambda>c. c = CHR ''/'') (rev path)"
  define c where "c = takeWhile (\<lambda>c. c \<noteq> CHR ''/'') q"
  define b where "b = takeWhile (\<lambda>c. c \<noteq> CHR ''.'') c"
  define m where "m = length q"
  have spec: "extname_spec path =
      (if length b = length c \<or> length c = length b + 1 \<or> c = ''..'' then []
       else CHR ''.'' # rev b)"
    by (simp add: extname_spec_def q_def c_def b_def Let_def)
  have m_le: "m \<le> length path"
    unfolding m_def q_def by (metis length_dropWhile_le length_rev)
  have rq: "rev (take m path) = q"
    unfolding m_def q_def by (rule rev_take_dropWhile_rev)
  have c_le: "length c \<le> m"
    unfolding c_def m_def by (rule length_takeWhile_le)
  have b_le: "length b \<le> length c"
    unfolding b_def by (rule length_takeWhile_le)
  have start: "extname_loop path (length path) (- 1) 0 (- 1) True 0 =
      (if m = 0 then (- 1, 0, - 1, 0) else extname_loop path m (- 1) 0 (int m) False 0)"
    using extname_loop_trailing [of "length path" path]
    by (simp add: Let_def m_def q_def)
  show ?thesis
  proof (cases "m = 0")
    case True
    then have "q = []" by (simp add: m_def)
    then have "length b = length c" by (simp add: b_def c_def)
    with True start spec show ?thesis by (simp add: extname_def)
  next
    case False
    then have e: "int m \<noteq> - 1" by simp
    have loop: "extname_loop path (length path) (- 1) 0 (- 1) True 0 =
        (if length b = length c then (- 1, int (m - length c), int m, 0)
         else (int m - int (length b) - 1, int (m - length c), int m,
               (if length c = length b + 1 then 0
                else if last c = CHR ''.'' then 1 else - 1)))"
      using False start extname_loop_before_dot [OF m_le e, of 0 0]
      by (simp add: rq Let_def c_def [symmetric] b_def [symmetric])
    show ?thesis
    proof (cases "length b = length c")
      case True
      with loop spec show ?thesis by (simp add: extname_def)
    next
      case neq: False
      then obtain c1 where c_eq: "c = b @ CHR ''.'' # c1"
        using takeWhile_shorter [of "\<lambda>c. c \<noteq> CHR ''.''" c] unfolding b_def by metis
      have q_eq: "q = c @ dropWhile (\<lambda>c. c \<noteq> CHR ''/'') q"
        by (simp add: c_def)
      have "rev path = takeWhile (\<lambda>c. c = CHR ''/'') (rev path) @ q"
        by (simp add: q_def)
      then have path_eq: "path = rev q @ rev (takeWhile (\<lambda>c. c = CHR ''/'') (rev path))"
        by (metis rev_append rev_rev_ident)
      define pre where "pre = rev (dropWhile (\<lambda>c. c \<noteq> CHR ''/'') q) @ rev c1"
      define sl where "sl = rev (takeWhile (\<lambda>c. c = CHR ''/'') (rev path))"
      have p: "path = pre @ (CHR ''.'' # rev b) @ sl"
      proof -
        have "rev q = rev (dropWhile (\<lambda>c. c \<noteq> CHR ''/'') q) @ rev c"
          by (subst q_eq) (simp only: rev_append)
        also have "rev c = rev c1 @ CHR ''.'' # rev b"
          by (simp add: c_eq)
        finally have "rev q = pre @ CHR ''.'' # rev b" by (simp add: pre_def)
        with path_eq show ?thesis by (simp add: sl_def)
      qed
      have lens: "m = length pre + length b + 1"
      proof -
        have "length q = length c + length (dropWhile (\<lambda>c. c \<noteq> CHR ''/'') q)"
          by (metis q_eq length_append)
        then show ?thesis by (simp add: m_def pre_def c_eq)
      qed
      have sl: "slice path (int m - int (length b) - 1) (int m) = CHR ''.'' # rev b"
      proof -
        have k: "nat (int m - (int m - int (length b) - 1)) = Suc (length b)"
          "nat (int (length b) + 1) = Suc (length b)" "nat (1 + int (length b)) = Suc (length b)"
          by arith+
        have d: "nat (int m - int (length b) - 1) = length pre" using lens by arith
        have r: "0 \<le> int m - int (length b) - 1" "int m - int (length b) - 1 \<le> int (length path)"
          "int m \<le> int (length path)"
          using lens m_le by arith+
        have "slice path (int m - int (length b) - 1) (int m) =
            take (Suc (length b)) (drop (length pre) path)"
          unfolding slice_def Let_def using r by (simp add: k d min_def)
        also have "\<dots> = CHR ''.'' # rev b" by (simp add: p)
        finally show ?thesis .
      qed
      have dd: "c = ''..'' \<longleftrightarrow> (length c \<noteq> length b + 1 \<and> last c = CHR ''.'' \<and> b = [] \<and> length c = 2)"
      proof (cases b)
        case Nil
        with c_eq show ?thesis by (cases c1) auto
      next
        case (Cons y ys)
        have "y \<in> set b" by (simp add: Cons)
        then have "y \<noteq> CHR ''.''" unfolding b_def by (auto dest: set_takeWhileD)
        with c_eq Cons show ?thesis by simp
      qed
      show ?thesis
        using neq loop spec sl dd c_le b_le
        by (auto simp: extname_def)
    qed
  qed
qed

text \<open>
  A non-empty extension is a dot and characters that are neither dots nor separators; in
  the path it follows a non-empty prefix that does not end in a separator, and only
  separators follow it. Conversely a path built this way has that extension, unless its
  last component is \<open>..\<close>.
\<close>

lemma extname_parts:
  assumes "extname path = e" and "e \<noteq> []"
  obtains pre b sl where "path = pre @ e @ sl" and "e = CHR ''.'' # b"
    and "CHR ''.'' \<notin> set b" and "CHR ''/'' \<notin> set b"
    and "sl = rev (takeWhile (\<lambda>c. c = CHR ''/'') (rev path))"
    and "pre \<noteq> []" and "last pre \<noteq> CHR ''/''"
proof -
  define q where "q = dropWhile (\<lambda>c. c = CHR ''/'') (rev path)"
  define c where "c = takeWhile (\<lambda>c. c \<noteq> CHR ''/'') q"
  define b where "b = takeWhile (\<lambda>c. c \<noteq> CHR ''.'') c"
  define sl where "sl = rev (takeWhile (\<lambda>c. c = CHR ''/'') (rev path))"
  have "extname path =
      (if length b = length c \<or> length c = length b + 1 \<or> c = ''..'' then []
       else CHR ''.'' # rev b)"
    by (simp add: extname_eq_spec extname_spec_def q_def c_def b_def Let_def)
  with assms have neq: "length b \<noteq> length c" and neq1: "length c \<noteq> length b + 1"
    and e: "e = CHR ''.'' # rev b"
    by (auto split: if_splits)
  from neq obtain c1 where c_eq: "c = b @ CHR ''.'' # c1"
    using takeWhile_shorter [of "\<lambda>c. c \<noteq> CHR ''.''" c] unfolding b_def by metis
  from neq1 c_eq have c1: "c1 \<noteq> []" by auto
  define pre where "pre = rev (dropWhile (\<lambda>c. c \<noteq> CHR ''/'') q) @ rev c1"
  have q_eq: "q = c @ dropWhile (\<lambda>c. c \<noteq> CHR ''/'') q"
    by (simp add: c_def)
  have "rev path = takeWhile (\<lambda>c. c = CHR ''/'') (rev path) @ q"
    by (simp add: q_def)
  then have path_eq: "path = rev q @ sl"
    unfolding sl_def by (metis rev_append rev_rev_ident)
  have "rev q = rev (dropWhile (\<lambda>c. c \<noteq> CHR ''/'') q) @ rev c"
    by (subst q_eq) (simp only: rev_append)
  also have "rev c = rev c1 @ CHR ''.'' # rev b"
    by (simp add: c_eq)
  finally have "rev q = pre @ e" by (simp add: pre_def e)
  with path_eq have 1: "path = pre @ e @ sl" by simp
  have inc: "\<And>x. x \<in> set c \<Longrightarrow> x \<noteq> CHR ''/''"
    unfolding c_def by (auto dest: set_takeWhileD)
  have 2: "CHR ''.'' \<notin> set (rev b)"
    unfolding b_def by (auto dest: set_takeWhileD)
  have 3: "CHR ''/'' \<notin> set (rev b)"
    using inc c_eq by auto
  have 4: "pre \<noteq> []" using c1 by (simp add: pre_def)
  have "last pre = hd c1" using c1 by (simp add: pre_def last_rev)
  moreover have "hd c1 \<in> set c" using c1 c_eq by simp
  ultimately have 5: "last pre \<noteq> CHR ''/''" using inc by auto
  from that [OF 1 e 2 3 sl_def 4 5] show ?thesis .
qed

lemma takeWhile_neq_append:
  "c \<notin> set xs \<Longrightarrow> takeWhile (\<lambda>x. x \<noteq> c) (xs @ ys) = xs @ takeWhile (\<lambda>x. x \<noteq> c) ys"
  by (induction xs) auto

lemma extname_of_parts:
  assumes "pre \<noteq> []" and "last pre \<noteq> CHR ''/''"
    and "CHR ''.'' \<notin> set b" and "CHR ''/'' \<notin> set b"
    and "\<forall>x\<in>set sl. x = CHR ''/''"
    and "\<not> (b = [] \<and> takeWhile (\<lambda>c. c \<noteq> CHR ''/'') (rev pre) = ''.'')"
  shows "extname (pre @ CHR ''.'' # b @ sl) = CHR ''.'' # b"
proof -
  define c1 where "c1 = takeWhile (\<lambda>c. c \<noteq> CHR ''/'') (rev pre)"
  have r: "rev (pre @ CHR ''.'' # b @ sl) = rev sl @ (rev b @ CHR ''.'' # rev pre)"
    by simp
  have "hd (rev b @ CHR ''.'' # rev pre) \<noteq> CHR ''/''"
    using assms(4) by (cases b rule: rev_cases) auto
  then have "dropWhile (\<lambda>c. c = CHR ''/'') (rev b @ CHR ''.'' # rev pre)
      = rev b @ CHR ''.'' # rev pre"
    by (simp only: dropWhile_eq_self_iff) simp
  moreover have "dropWhile (\<lambda>c. c = CHR ''/'') (rev sl @ (rev b @ CHR ''.'' # rev pre))
      = dropWhile (\<lambda>c. c = CHR ''/'') (rev b @ CHR ''.'' # rev pre)"
    using assms(5) by (intro dropWhile_append2) simp
  ultimately have q: "dropWhile (\<lambda>c. c = CHR ''/'') (rev (pre @ CHR ''.'' # b @ sl))
      = rev b @ CHR ''.'' # rev pre"
    by (simp only: r)
  have c: "takeWhile (\<lambda>c. c \<noteq> CHR ''/'') (rev b @ CHR ''.'' # rev pre)
      = rev b @ CHR ''.'' # c1"
    using assms(4) by (simp add: takeWhile_neq_append c1_def)
  have b: "takeWhile (\<lambda>c. c \<noteq> CHR ''.'') (rev b @ CHR ''.'' # c1) = rev b"
    using assms(3) by (simp add: takeWhile_neq_append)
  have "hd (rev pre) \<noteq> CHR ''/''" using assms(1,2) by (simp add: hd_rev)
  then have c1: "c1 \<noteq> []" using assms(1) by (simp add: c1_def takeWhile_eq_Nil_iff)
  have dd: "rev b @ CHR ''.'' # c1 = ''..'' \<longleftrightarrow> b = [] \<and> c1 = ''.''"
    using assms(3) by (cases b rule: rev_cases) auto
  have "extname_spec (pre @ CHR ''.'' # b @ sl) =
      (if length (rev b) = length (rev b @ CHR ''.'' # c1) \<or>
          length (rev b @ CHR ''.'' # c1) = length (rev b) + 1 \<or>
          rev b @ CHR ''.'' # c1 = ''..''
       then [] else CHR ''.'' # rev (rev b))"
    by (simp only: extname_spec_def q c b Let_def)
  also have "\<dots> = CHR ''.'' # b"
    using c1 assms(6) dd by (simp add: c1_def)
  finally show ?thesis by (simp only: extname_eq_spec)
qed

lemma trailing_split:
  assumes "x \<noteq> []" and "last x \<noteq> CHR ''/''" and "\<forall>c\<in>set sl. c = CHR ''/''"
  shows "takeWhile (\<lambda>c. c = CHR ''/'') (rev (x @ sl)) = rev sl"
    and "dropWhile (\<lambda>c. c = CHR ''/'') (rev (x @ sl)) = rev x"
proof -
  have h: "\<not> (hd (rev x) = CHR ''/'')" using assms(1,2) by (simp add: hd_rev)
  have x: "rev x = hd (rev x) # tl (rev x)" using assms(1) by simp
  have a: "\<And>c. c \<in> set (rev sl) \<Longrightarrow> c = CHR ''/''" using assms(3) by simp
  have "takeWhile (\<lambda>c. c = CHR ''/'') (rev sl @ hd (rev x) # tl (rev x)) = rev sl"
    using a h by (simp add: takeWhile_tail)
  then show "takeWhile (\<lambda>c. c = CHR ''/'') (rev (x @ sl)) = rev sl"
    using x by simp
  have "dropWhile (\<lambda>c. c = CHR ''/'') (rev sl @ hd (rev x) # tl (rev x)) = hd (rev x) # tl (rev x)"
    using a h by (simp add: dropWhile_append3)
  then show "dropWhile (\<lambda>c. c = CHR ''/'') (rev (x @ sl)) = rev x"
    using x by simp
qed

lemma last_part_dot:
  assumes "takeWhile (\<lambda>c. c \<noteq> CHR ''/'') (rev nm) = ''.''" and "hasPathSeparator nm"
  shows "suffix ''/.'' nm"
proof -
  have r: "rev nm = ''.'' @ dropWhile (\<lambda>c. c \<noteq> CHR ''/'') (rev nm)"
    using takeWhile_dropWhile_id [of "\<lambda>c. c \<noteq> CHR ''/''" "rev nm"] assms(1) by simp
  show ?thesis
  proof (cases "dropWhile (\<lambda>c. c \<noteq> CHR ''/'') (rev nm)")
    case Nil
    with r have "rev nm = ''.''" by simp
    then have "nm = ''.''" by (metis rev_rev_ident rev_singleton_conv)
    with assms(2) show ?thesis by (simp add: hasPathSeparator_def)
  next
    case (Cons x xs)
    then have "dropWhile (\<lambda>c. c \<noteq> CHR ''/'') (rev nm) \<noteq> []" by simp
    from hd_dropWhile [OF this] Cons have "x = CHR ''/''" by simp
    with r Cons have "rev nm = CHR ''.'' # CHR ''/'' # xs" by simp
    then have "nm = rev xs @ ''/.''" by (metis rev_rev_ident rev.simps(2) append_Cons append_Nil append_assoc)
    then show ?thesis by (simp add: suffix_def)
  qed
qed

subsection \<open>The last occurrence of an extension\<close>

lemma lastIndexOf_from_last:
  assumes "j \<le> k" and "take (length t) (drop j s) = t"
    and "\<And>i. j < i \<Longrightarrow> i \<le> k \<Longrightarrow> take (length t) (drop i s) \<noteq> t"
  shows "lastIndexOf_from s t k = int j"
  using assms
proof (induction k)
  case 0
  then show ?case by simp
next
  case (Suc k)
  show ?case
  proof (cases "j = Suc k")
    case True
    with Suc.prems(2) show ?thesis by simp
  next
    case False
    with Suc.prems(1) have jk: "j \<le> k" by simp
    have "take (length t) (drop (Suc k) s) \<noteq> t"
      using Suc.prems(3) [of "Suc k"] False Suc.prems(1) by simp
    moreover have "lastIndexOf_from s t k = int j"
      using Suc.IH [OF jk Suc.prems(2)] Suc.prems(3) by simp
    ultimately show ?thesis by simp
  qed
qed

lemma lastIndexOf_extension:
  assumes s: "s = pre @ (CHR ''.'' # b) @ sl"
    and b: "CHR ''.'' \<notin> set b" and sl: "CHR ''.'' \<notin> set sl"
  shows "lastIndexOf s (CHR ''.'' # b) = int (length pre)"
proof -
  let ?t = "CHR ''.'' # b"
  have len: "length s - length ?t = length pre + length sl" by (simp add: s)
  have 1: "length pre \<le> length pre + length sl" by simp
  have 2: "take (length ?t) (drop (length pre) s) = ?t" by (simp add: s)
  have 3: "take (length ?t) (drop i s) \<noteq> ?t"
    if "length pre < i" and "i \<le> length pre + length sl" for i
  proof
    assume eq: "take (length ?t) (drop i s) = ?t"
    have i: "i < length s" using that by (simp add: s)
    from eq have "hd (take (length ?t) (drop i s)) = CHR ''.''" by simp
    then have "hd (drop i s) = CHR ''.''" by simp
    then have "s ! i = CHR ''.''" using i by (simp add: hd_drop_conv_nth)
    moreover have "s ! i = (b @ sl) ! (i - length pre - 1)"
      using that by (simp add: s nth_append nth_Cons')
    moreover have "(b @ sl) ! (i - length pre - 1) \<in> set (b @ sl)"
      using that by (intro nth_mem) simp
    ultimately show False using b sl by auto
  qed
  have "lastIndexOf_from s ?t (length pre + length sl) = int (length pre)"
    using 1 2 3 by (rule lastIndexOf_from_last)
  then show ?thesis by (simp add: lastIndexOf_def len) (simp add: s)
qed

subsection \<open>The steps of the check\<close>

lemma verify_SomeE:
  assumes "verify readdirSync ctx t = Some d"
  obtains fp ext where "filePath t = Some fp" and "fp \<noteq> []"
    and "hasPathSeparator (name t)"
    and "determineExt (extname fp) (getExistingExtensions readdirSync fp) = Some ext"
    and "decide ctx (name t) (node t) (extname (name t))
           (getExistingExtensions readdirSync fp) ext = Some d"
  using assms
  by (auto simp: verify_def Let_def split: option.splits if_splits)

lemma verify_past_guards:
  assumes "filePath t = Some fp" and "fp \<noteq> []"
    and "determineExt (extname fp) (getExistingExtensions readdirSync fp) = Some ext"
  shows "verify readdirSync ctx t =
     (if hasPathSeparator (name t) then
        decide ctx (name t) (node t) (extname (name t))
          (getExistingExtensions readdirSync fp) ext
      else None)"
  using assms by (simp add: verify_def Let_def)

lemma decide_requireExt:
  assumes "decide ctx nm nd orig exts ext = Some d" and "report_messageId d = requireExt"
  shows "styleFor ctx ext = Always" and "report_data_ext d = ext"
    and "report_fix d =
      (if length exts \<noteq> 1 then None
       else Some (insertTextBeforeRange (snd (node_range nd) - 1, snd (node_range nd) - 1) ext))"
  using assms by (auto simp: decide_def Let_def split: if_splits)

lemma decide_forbidExt:
  assumes "decide ctx nm nd orig exts ext = Some d" and "report_messageId d = forbidExt"
  shows "styleFor ctx ext = Never" and "report_data_ext d = ext" and "orig = ext"
    and "report_fix d =
      (if length exts \<noteq> 1 then None
       else Some (removeRange (fst (node_range nd) + 1 + lastIndexOf nm ext,
                    fst (node_range nd) + 1 + lastIndexOf nm ext + int (length ext))))"
  using assms by (auto simp: decide_def Let_def split: if_splits)

lemma decide_None:
  "styleFor ctx ext = Always \<Longrightarrow> orig = ext \<Longrightarrow> decide ctx nm nd orig exts ext = None"
  "styleFor ctx ext = Never \<Longrightarrow> orig \<noteq> ext \<Longrightarrow> decide ctx nm nd orig exts ext = None"
  by (simp_all add: decide_def)

lemma determineExt_is_extname:
  assumes "determineExt (extname fp) (getExistingExtensions readdirSync fp) = Some ext"
  shows "\<exists>path. extname path = ext"
proof (cases "extname fp = []")
  case False
  with assms show ?thesis by (auto simp: determineExt_def)
next
  case True
  with assms have l: "length (getExistingExtensions readdirSync fp) = 1"
    and e: "ext = getExistingExtensions readdirSync fp ! 0"
    by (auto simp: determineExt_def split: if_splits)
  from l have "getExistingExtensions readdirSync fp ! 0 \<in> set (getExistingExtensions readdirSync fp)"
    by (intro nth_mem) simp
  then show ?thesis
    unfolding e by (auto simp: getExistingExtensions_def Let_def split: option.splits)
qed

lemma importOf_fields:
  "filePath (importOf fp specifier offset) = Some fp"
  "name (importOf fp specifier offset) = specifier"
  "node_range (node (importOf fp specifier offset)) =
     (offset, offset + int (length specifier) + 2)"
  "spansQuotedName (importOf fp specifier offset)"
  by (simp_all add: importOf_def spansQuotedName_def)

lemma fixedTarget_fields:
  "filePath (fixedTarget t f) = filePath t"
  "name (fixedTarget t f) = applyFix (fst (node_range (node t)) + 1) (name t) f"
  by (simp_all add: fixedTarget_def Let_def)

lemma forbidExt_parts:
  assumes v: "verify readdirSync ctx t = Some d" and m: "report_messageId d = forbidExt"
    and ne: "report_data_ext d \<noteq> []"
  obtains pre sl where "name t = pre @ report_data_ext d @ sl"
    and "sl = trailingSlashes (name t)" and "\<forall>c\<in>set sl. c = CHR ''/''"
    and "extname (name t) = report_data_ext d"
    and "lastIndexOf (name t) (report_data_ext d) = int (length pre)"
    and "pre \<noteq> []" and "last pre \<noteq> CHR ''/''"
    and "last (report_data_ext d) \<noteq> CHR ''/''"
    and "report_fix d = None \<or> report_fix d =
      Some \<lparr>fix_range = (fst (node_range (node t)) + 1 + int (length pre),
                fst (node_range (node t)) + 1 + int (length pre)
                  + int (length (report_data_ext d))),
            fix_text = []\<rparr>"
proof -
  from v obtain fp ext where
    dec: "decide ctx (name t) (node t) (extname (name t))
           (getExistingExtensions readdirSync fp) ext = Some d"
    by (rule verify_SomeE)
  note facts = decide_forbidExt [OF dec m]
  have ext: "extname (name t) = report_data_ext d" using facts(2,3) by simp
  from ext ne obtain pre b sl where nm: "name t = pre @ report_data_ext d @ sl"
    and e: "report_data_ext d = CHR ''.'' # b"
    and b: "CHR ''.'' \<notin> set b" "CHR ''/'' \<notin> set b"
    and sl: "sl = rev (takeWhile (\<lambda>c. c = CHR ''/'') (rev (name t)))"
    and pre: "pre \<noteq> []" "last pre \<noteq> CHR ''/''"
    by (rule extname_parts)
  have sl': "sl = trailingSlashes (name t)" by (simp add: sl trailingSlashes_def)
  have al: "\<forall>c\<in>set sl. c = CHR ''/''" unfolding sl by (auto dest: set_takeWhileD)
  then have nd: "CHR ''.'' \<notin> set sl" by auto
  have li: "lastIndexOf (name t) (report_data_ext d) = int (length pre)"
    using lastIndexOf_extension [OF _ b(1) nd, of "name t" pre] nm e by simp
  have le: "last (report_data_ext d) \<noteq> CHR ''/''"
    using b(2) by (cases b rule: rev_cases) (auto simp: e)
  have fx: "report_fix d = None \<or> report_fix d =
      Some \<lparr>fix_range = (fst (node_range (node t)) + 1 + int (length pre),
                fst (node_range (node t)) + 1 + int (length pre)
                  + int (length (report_data_ext d))),
            fix_text = []\<rparr>"
    using facts(4) li facts(2) by (simp add: removeRange_def)
  from nm sl' al ext li pre le fx show ?thesis by (rule that)
qed

lemma requireExt_fixed:
  assumes ext: "extname path = ext" and ne: "ext \<noteq> []"
    and sep: "hasPathSeparator nm" and l: "last nm \<noteq> CHR ''/''"
    and dd: "\<not> (ext = ''.'' \<and> suffix ''/.'' nm)"
  shows "extname (nm @ ext) = ext"
proof -
  from ext ne obtain b where e: "ext = CHR ''.'' # b"
    and b: "CHR ''.'' \<notin> set b" "CHR ''/'' \<notin> set b"
    by (rule extname_parts)
  from sep have nm: "nm \<noteq> []" by (auto simp: hasPathSeparator_def)
  have "\<not> (b = [] \<and> takeWhile (\<lambda>c. c \<noteq> CHR ''/'') (rev nm) = ''.'')"
    using dd e last_part_dot [OF _ sep] by auto
  from extname_of_parts [OF nm l b _ this, of "[]"] show ?thesis by (simp add: e)
qed

lemma forbidExt_fixed:
  assumes nm: "nm = pre @ ext @ sl" and ext: "extname nm = ext" and ne: "ext \<noteq> []"
    and sl: "\<forall>c\<in>set sl. c = CHR ''/''"
    and pre: "pre \<noteq> []" "last pre \<noteq> CHR ''/''" and le: "last ext \<noteq> CHR ''/''"
    and twice: "\<not> suffix (ext @ ext) (stripTrailingSlashes nm)"
  shows "extname (pre @ sl) \<noteq> ext"
proof
  assume again: "extname (pre @ sl) = ext"
  from again ne obtain pre' sl' where p: "pre @ sl = pre' @ ext @ sl'"
    and sl': "sl' = rev (takeWhile (\<lambda>c. c = CHR ''/'') (rev (pre @ sl)))"
    by (rule extname_parts)
  have "sl' = sl" unfolding sl' by (simp only: trailing_split(1) [OF pre sl] rev_rev_ident)
  with p have "pre = pre' @ ext" by simp
  then have "suffix ext pre" by (simp add: suffix_def)
  moreover have "stripTrailingSlashes nm = pre @ ext"
  proof -
    have x: "pre @ ext \<noteq> []" "last (pre @ ext) \<noteq> CHR ''/''"
      using ne le by simp_all
    have "nm = (pre @ ext) @ sl" by (simp add: nm)
    then show ?thesis
      unfolding stripTrailingSlashes_def
      by (simp only: trailing_split(2) [OF x sl] rev_rev_ident)
  qed
  ultimately show False using twice by simp
qed

subsection \<open>When a target is reported\<close>

text \<open>
  C1. A report is made only for a target whose specifier text contains \<open>/\<close> or \<open>\\<close>, whose
  resolved path is present, and whose extension can be determined: the resolved path has
  a non-empty extension, or sibling discovery found exactly one extension. A target with
  a bare specifier is never reported.
\<close>

theorem diagnostic_only_behind_guards:
  "(verify readdirSync ctx t = Some d \<longrightarrow>
      hasPathSeparator (name t) \<and>
      (\<exists>fp. filePath t = Some fp \<and> fp \<noteq> [] \<and>
         (extname fp \<noteq> [] \<or> length (getExistingExtensions readdirSync fp) = 1))) \<and>
   (\<not> hasPathSeparator (name t) \<longrightarrow> verify readdirSync ctx t = None)"
  by (auto simp: verify_def determineExt_def Let_def split: option.splits if_splits)

theorem diagnostic_only_behind_guards_witness:
  "verify project plainOptions (importOf ''/p/a.js'' ''./a'' 7) \<noteq> None \<and>
   hasPathSeparator ''./a'' \<and> extname ''/p/a.js'' \<noteq> [] \<and>
   \<not> hasPathSeparator ''a'' \<and>
   verify project plainOptions (importOf ''/p/a.js'' ''a'' 7) = None"
proof -
  have 1: "verify project plainOptions (importOf ''/p/a.js'' ''./a'' 7) \<noteq> None"
    by code_simp
  have 2: "\<not> hasPathSeparator (name (importOf ''/p/a.js'' ''a'' 7))"
    by code_simp
  have 3: "name (importOf ''/p/a.js'' ''./a'' 7) = ''./a''"
    "name (importOf ''/p/a.js'' ''a'' 7) = ''a''"
    by (simp_all add: importOf_def)
  from 1 2
    diagnostic_only_behind_guards [of project plainOptions "importOf ''/p/a.js'' ''./a'' 7"]
    diagnostic_only_behind_guards [of project plainOptions "importOf ''/p/a.js'' ''a'' 7"]
  show ?thesis by (auto simp: 3 extname_values)
qed

text \<open>
  C2. For a target that passes the guards on the specifier and the resolved path: a
  non-empty extension of the resolved path is the extension the import is measured
  against, whatever sibling discovery found; without one, it is the single extension
  that discovery found; and with none or several found, the target is skipped without a
  report. The extension named in any report is that one.
\<close>

theorem canonical_extension:
  assumes "filePath t = Some fp" and "fp \<noteq> []" and "hasPathSeparator (name t)"
  shows "(extname fp \<noteq> [] \<longrightarrow>
            determineExt (extname fp) (getExistingExtensions readdirSync fp) = Some (extname fp) \<and>
            verify readdirSync ctx t =
              decide ctx (name t) (node t) (extname (name t))
                (getExistingExtensions readdirSync fp) (extname fp)) \<and>
         (extname fp = [] \<and> getExistingExtensions readdirSync fp = [e] \<longrightarrow>
            determineExt (extname fp) (getExistingExtensions readdirSync fp) = Some e \<and>
            verify readdirSync ctx t =
              decide ctx (name t) (node t) (extname (name t)) [e] e) \<and>
         (extname fp = [] \<and> length (getExistingExtensions readdirSync fp) \<noteq> 1 \<longrightarrow>
            determineExt (extname fp) (getExistingExtensions readdirSync fp) = None \<and>
            verify readdirSync ctx t = None) \<and>
         (\<forall>d. verify readdirSync ctx t = Some d \<longrightarrow>
            report_data_ext d =
              (if extname fp \<noteq> [] then extname fp
               else getExistingExtensions readdirSync fp ! 0))"
proof (intro conjI impI allI)
  assume "extname fp \<noteq> []"
  then show "determineExt (extname fp) (getExistingExtensions readdirSync fp) = Some (extname fp)"
    by (simp add: determineExt_def)
  with assms show "verify readdirSync ctx t =
      decide ctx (name t) (node t) (extname (name t))
        (getExistingExtensions readdirSync fp) (extname fp)"
    by (simp add: verify_def Let_def)
next
  assume h: "extname fp = [] \<and> getExistingExtensions readdirSync fp = [e]"
  then show "determineExt (extname fp) (getExistingExtensions readdirSync fp) = Some e"
    by (simp add: determineExt_def)
  with assms h show "verify readdirSync ctx t =
      decide ctx (name t) (node t) (extname (name t)) [e] e"
    by (simp add: verify_def Let_def)
next
  assume h: "extname fp = [] \<and> length (getExistingExtensions readdirSync fp) \<noteq> 1"
  then show "determineExt (extname fp) (getExistingExtensions readdirSync fp) = None"
    by (simp add: determineExt_def)
  with assms show "verify readdirSync ctx t = None"
    by (simp add: verify_def Let_def)
next
  fix d
  assume "verify readdirSync ctx t = Some d"
  with assms show "report_data_ext d =
      (if extname fp \<noteq> [] then extname fp
       else getExistingExtensions readdirSync fp ! 0)"
    by (auto simp: verify_def decide_def determineExt_def Let_def
        split: if_splits)
qed

theorem canonical_extension_witness:
  "determineExt (extname ''/p/b.js'') (getExistingExtensions project ''/p/b.js'') = Some ''.js'' \<and>
   length (getExistingExtensions project ''/p/b.js'') = 2 \<and>
   determineExt (extname ''/p/e'') (getExistingExtensions project ''/p/e'') = Some ''.ts'' \<and>
   verify project plainOptions (importOf ''/p/zz'' ''./zz'' 7) = None"
proof -
  have s: "hasPathSeparator ''./b''" "hasPathSeparator ''./e''" "hasPathSeparator ''./zz''"
    by code_simp+
  have b: "filePath (importOf ''/p/b.js'' ''./b'' 7) = Some ''/p/b.js''"
    and e: "filePath (importOf ''/p/e'' ''./e'' 7) = Some ''/p/e''"
    and z: "filePath (importOf ''/p/zz'' ''./zz'' 7) = Some ''/p/zz''"
    by (simp_all add: importOf_def)
  have n: "name (importOf ''/p/b.js'' ''./b'' 7) = ''./b''"
    "name (importOf ''/p/e'' ''./e'' 7) = ''./e''"
    "name (importOf ''/p/zz'' ''./zz'' 7) = ''./zz''"
    by (simp_all add: importOf_def)
  from canonical_extension [OF b, where readdirSync = project and ctx = plainOptions]
    canonical_extension [OF e, where readdirSync = project and ctx = plainOptions
      and e = "''.ts''"]
    canonical_extension [OF z, where readdirSync = project and ctx = plainOptions]
  show ?thesis
    by (simp add: n s siblings_b siblings_e siblings_missing extname_values)
qed

subsection \<open>The two styles\<close>

text \<open>
  C3, as stated, fails: it speaks of every target whose extension can be determined, and
  the guard of line 72 lets a bare specifier pass without a report. The specifier \<open>a\<close>,
  resolved to \<open>/p/a.js\<close>, has the determined extension \<open>.js\<close> under the style \<open>always\<close>, its
  text has no extension, and it is not reported.
\<close>

theorem always_style_bare_specifier_counterexample:
  "filePath (importOf ''/p/a.js'' ''a'' 7) = Some ''/p/a.js'' \<and>
   determineExt (extname ''/p/a.js'') (getExistingExtensions project ''/p/a.js'') = Some ''.js'' \<and>
   styleFor plainOptions ''.js'' = Always \<and>
   extname ''a'' = [] \<and>
   extname ''a'' \<noteq> ''.js'' \<and>
   verify project plainOptions (importOf ''/p/a.js'' ''a'' 7) = None"
  by code_simp

text \<open>
  C3, amended. Under the style \<open>always\<close>, a target whose specifier text contains \<open>/\<close> or \<open>\\<close>,
  whose resolved path is present and whose extension is determined is reported exactly
  when the extension of its specifier text differs from that extension; the report has
  the message \<open>requireExt\<close> and names the extension, and its fix, when there is one,
  inserts the extension at the offset \<open>node.range[1] - 1\<close>. When the node spans the quoted
  specifier text, that is just before the closing quote: the fix appends the extension
  to the specifier text.
\<close>

theorem always_style_report:
  assumes "filePath t = Some fp" and "fp \<noteq> []" and "hasPathSeparator (name t)"
    and "determineExt (extname fp) (getExistingExtensions readdirSync fp) = Some ext"
    and "styleFor ctx ext = Always"
  shows "verify readdirSync ctx t =
           (if extname (name t) \<noteq> ext then
              Some \<lparr>report_node = node t, report_messageId = requireExt,
                    report_data_ext = ext,
                    report_fix =
                      (if length (getExistingExtensions readdirSync fp) = 1 then
                         Some \<lparr>fix_range =
                                 (snd (node_range (node t)) - 1, snd (node_range (node t)) - 1),
                               fix_text = ext\<rparr>
                       else None)\<rparr>
            else None) \<and>
         (spansQuotedName t \<longrightarrow>
            applyFix (fst (node_range (node t)) + 1) (name t)
              \<lparr>fix_range = (snd (node_range (node t)) - 1, snd (node_range (node t)) - 1),
                fix_text = ext\<rparr> = name t @ ext)"
proof (intro conjI impI)
  show "verify readdirSync ctx t =
           (if extname (name t) \<noteq> ext then
              Some \<lparr>report_node = node t, report_messageId = requireExt,
                    report_data_ext = ext,
                    report_fix =
                      (if length (getExistingExtensions readdirSync fp) = 1 then
                         Some \<lparr>fix_range =
                                 (snd (node_range (node t)) - 1, snd (node_range (node t)) - 1),
                               fix_text = ext\<rparr>
                       else None)\<rparr>
            else None)"
    using assms
    by (auto simp: verify_def decide_def insertTextBeforeRange_def Let_def)
  show "applyFix (fst (node_range (node t)) + 1) (name t)
           \<lparr>fix_range = (snd (node_range (node t)) - 1, snd (node_range (node t)) - 1),
             fix_text = ext\<rparr> = name t @ ext"
    if "spansQuotedName t"
    using that by (simp add: applyFix_def spansQuotedName_def)
qed

theorem always_style_report_witness:
  "verify project plainOptions (importOf ''/p/a.js'' ''./a'' 7) =
     Some \<lparr>report_node = \<lparr>node_range = (7, 12)\<rparr>, report_messageId = requireExt,
           report_data_ext = ''.js'',
           report_fix = Some \<lparr>fix_range = (11, 11), fix_text = ''.js''\<rparr>\<rparr> \<and>
   spansQuotedName (importOf ''/p/a.js'' ''./a'' 7) \<and>
   applyFix 8 ''./a'' \<lparr>fix_range = (11, 11), fix_text = ''.js''\<rparr> = ''./a.js''"
proof -
  have h1: "filePath (importOf ''/p/a.js'' ''./a'' 7) = Some ''/p/a.js''"
    by (simp add: importOf_def)
  have h2: "''/p/a.js'' \<noteq> []" by simp
  have h3: "hasPathSeparator (name (importOf ''/p/a.js'' ''./a'' 7))" by code_simp
  have h4: "determineExt (extname ''/p/a.js'') (getExistingExtensions project ''/p/a.js'')
            = Some ''.js''" by code_simp
  have h5: "styleFor plainOptions ''.js'' = Always" by code_simp
  have h6: "spansQuotedName (importOf ''/p/a.js'' ''./a'' 7)"
    by (simp add: importOf_def spansQuotedName_def)
  show ?thesis
    using always_style_report [OF h1 h2 h3 h4 h5] h6
    by (simp add: importOf_def siblings_a extname_values)
qed

text \<open>
  C4, as stated, fails for the same reason as C3: the specifier \<open>a.js\<close>, resolved to
  \<open>/p/a.js\<close>, has the determined extension \<open>.js\<close> under the style \<open>never\<close>, its text has
  that extension, and the guard of line 72 lets it pass without a report.
\<close>

theorem never_style_bare_specifier_counterexample:
  "filePath (importOf ''/p/a.js'' ''a.js'' 7) = Some ''/p/a.js'' \<and>
   determineExt (extname ''/p/a.js'') (getExistingExtensions project ''/p/a.js'') = Some ''.js'' \<and>
   styleFor neverOptions ''.js'' = Never \<and>
   extname ''a.js'' = ''.js'' \<and>
   verify project neverOptions (importOf ''/p/a.js'' ''a.js'' 7) = None"
  by code_simp

text \<open>
  C4, amended. Under the style \<open>never\<close>, a target whose specifier text contains \<open>/\<close> or \<open>\\<close>,
  whose resolved path is present and whose extension is determined is reported exactly
  when the extension of its specifier text is that extension; the report has the message
  \<open>forbidExt\<close> and names the extension, and its fix, when there is one, removes the range
  that starts at \<open>node.range[0] + 1 + name.lastIndexOf(ext)\<close> and is as long as the
  extension.
\<close>

theorem never_style_report:
  assumes "filePath t = Some fp" and "fp \<noteq> []" and "hasPathSeparator (name t)"
    and "determineExt (extname fp) (getExistingExtensions readdirSync fp) = Some ext"
    and "styleFor ctx ext = Never"
  shows "verify readdirSync ctx t =
           (if extname (name t) = ext then
              Some \<lparr>report_node = node t, report_messageId = forbidExt,
                    report_data_ext = ext,
                    report_fix =
                      (if length (getExistingExtensions readdirSync fp) = 1 then
                         Some \<lparr>fix_range =
                                 (fst (node_range (node t)) + 1 + lastIndexOf (name t) ext,
                                  fst (node_range (node t)) + 1 + lastIndexOf (name t) ext
                                    + int (length ext)),
                               fix_text = []\<rparr>
                       else None)\<rparr>
            else None)"
  using assms
  by (auto simp: verify_def decide_def removeRange_def Let_def)

theorem never_style_report_witness:
  "verify project neverOptions (importOf ''/p/a.js'' ''./a.js'' 7) =
     Some \<lparr>report_node = \<lparr>node_range = (7, 15)\<rparr>, report_messageId = forbidExt,
           report_data_ext = ''.js'',
           report_fix = Some \<lparr>fix_range = (11, 14), fix_text = []\<rparr>\<rparr>"
proof -
  have h1: "filePath (importOf ''/p/a.js'' ''./a.js'' 7) = Some ''/p/a.js''"
    by (simp add: importOf_def)
  have h2: "''/p/a.js'' \<noteq> []" by simp
  have h3: "hasPathSeparator (name (importOf ''/p/a.js'' ''./a.js'' 7))" by code_simp
  have h4: "determineExt (extname ''/p/a.js'') (getExistingExtensions project ''/p/a.js'')
            = Some ''.js''" by code_simp
  have h5: "styleFor neverOptions ''.js'' = Never" by code_simp
  have l: "lastIndexOf ''./a.js'' ''.js'' = 3" by code_simp
  show ?thesis
    using never_style_report [OF h1 h2 h3 h4 h5]
    by (simp add: importOf_def siblings_a extname_values l)
qed

text \<open>
  C5. A report made for a target whose sibling discovery did not find exactly one
  extension has no fix, also when the extension came from the resolved path.
\<close>

theorem no_fix_unless_one_sibling:
  assumes "verify readdirSync ctx t = Some d" and "filePath t = Some fp"
    and "length (getExistingExtensions readdirSync fp) \<noteq> 1"
  shows "report_fix d = None"
  using assms
  by (auto simp: verify_def decide_def Let_def split: option.splits if_splits)

theorem no_fix_unless_one_sibling_witness:
  "verify project plainOptions (importOf ''/p/b.js'' ''./b'' 7) =
     Some \<lparr>report_node = \<lparr>node_range = (7, 12)\<rparr>, report_messageId = requireExt,
           report_data_ext = ''.js'', report_fix = None\<rparr> \<and>
   length (getExistingExtensions project ''/p/b.js'') = 2 \<and>
   report_fix \<lparr>report_node = \<lparr>node_range = (7, 12)\<rparr>, report_messageId = requireExt,
           report_data_ext = ''.js'', report_fix = None\<rparr> = None"
proof -
  have v: "verify project plainOptions (importOf ''/p/b.js'' ''./b'' 7) =
     Some \<lparr>report_node = \<lparr>node_range = (7, 12)\<rparr>, report_messageId = requireExt,
           report_data_ext = ''.js'', report_fix = None\<rparr>"
    by code_simp
  have h: "filePath (importOf ''/p/b.js'' ''./b'' 7) = Some ''/p/b.js''"
    by (simp add: importOf_def)
  have n: "length (getExistingExtensions project ''/p/b.js'') \<noteq> 1"
    by (simp add: siblings_b)
  from no_fix_unless_one_sibling [OF v h n] v show ?thesis
    by (simp add: siblings_b)
qed

subsection \<open>Overrides\<close>



subsection \<open>A directory that cannot be listed\<close>

text \<open>
  C7. When the directory of a path cannot be listed, sibling discovery returns the empty
  list; its result is always a list, so the failure does not reach the caller.
\<close>

theorem unlistable_directory_gives_no_extensions:
  assumes "readdirSync (dirname fp) = None"
  shows "getExistingExtensions readdirSync fp = []"
  using assms by (simp add: getExistingExtensions_def)

theorem unlistable_directory_gives_no_extensions_witness:
  "project (dirname ''/q/x.js'') = None \<and> getExistingExtensions project ''/q/x.js'' = []"
proof -
  have h: "project (dirname ''/q/x.js'') = None" by code_simp
  from unlistable_directory_gives_no_extensions [of project "''/q/x.js''"] h
  show ?thesis by simp
qed

subsection \<open>Fixes\<close>

text \<open>
  C8. A fix is meant to settle its report: after it is applied, the target, checked again
  with the same resolved path, options and directory, should not be reported. The code
  misses this on three kinds of import. The import of \<open>./lib/\<close>, resolved to
  \<open>/p/lib/index.js\<close>, is fixed to \<open>./lib/.js\<close>, whose text still has no extension, and is
  reported again. The import of \<open>./d.js.js\<close> under \<open>never\<close> is fixed to \<open>./d.js\<close>, which
  still ends in \<open>.js\<close>, and is reported again. The import of the file \<open>c\<close>, which is its
  own only sibling, is reported under \<open>never\<close> for the empty extension, with a fix that
  removes nothing, while the \<open>always\<close> branch lets the same target pass.
\<close>

theorem fixed_import_reported_again:
  "verify project plainOptions (importOf ''/p/lib/index.js'' ''./lib/'' 7) =
     Some \<lparr>report_node = \<lparr>node_range = (7, 15)\<rparr>, report_messageId = requireExt,
           report_data_ext = ''.js'',
           report_fix = Some \<lparr>fix_range = (14, 14), fix_text = ''.js''\<rparr>\<rparr> \<and>
   fixedTarget (importOf ''/p/lib/index.js'' ''./lib/'' 7)
       \<lparr>fix_range = (14, 14), fix_text = ''.js''\<rparr> =
     importOf ''/p/lib/index.js'' ''./lib/.js'' 7 \<and>
   verify project plainOptions (importOf ''/p/lib/index.js'' ''./lib/.js'' 7) =
     Some \<lparr>report_node = \<lparr>node_range = (7, 18)\<rparr>, report_messageId = requireExt,
           report_data_ext = ''.js'',
           report_fix = Some \<lparr>fix_range = (17, 17), fix_text = ''.js''\<rparr>\<rparr> \<and>
   verify project neverOptions (importOf ''/p/d.js.js'' ''./d.js.js'' 7) =
     Some \<lparr>report_node = \<lparr>node_range = (7, 18)\<rparr>, report_messageId = forbidExt,
           report_data_ext = ''.js'',
           report_fix = Some \<lparr>fix_range = (14, 17), fix_text = []\<rparr>\<rparr> \<and>
   fixedTarget (importOf ''/p/d.js.js'' ''./d.js.js'' 7)
       \<lparr>fix_range = (14, 17), fix_text = []\<rparr> =
     importOf ''/p/d.js.js'' ''./d.js'' 7 \<and>
   verify project neverOptions (importOf ''/p/d.js.js'' ''./d.js'' 7) =
     Some \<lparr>report_node = \<lparr>node_range = (7, 15)\<rparr>, report_messageId = forbidExt,
           report_data_ext = ''.js'',
           report_fix = Some \<lparr>fix_range = (11, 14), fix_text = []\<rparr>\<rparr> \<and>
   verify project neverOptions (importOf ''/p/c'' ''./c'' 7) =
     Some \<lparr>report_node = \<lparr>node_range = (7, 12)\<rparr>, report_messageId = forbidExt,
           report_data_ext = [],
           report_fix = Some \<lparr>fix_range = (11, 11), fix_text = []\<rparr>\<rparr> \<and>
   fixedTarget (importOf ''/p/c'' ''./c'' 7) \<lparr>fix_range = (11, 11), fix_text = []\<rparr> =
     importOf ''/p/c'' ''./c'' 7 \<and>
   verify project plainOptions (importOf ''/p/c'' ''./c'' 7) = None"
  by code_simp

text \<open>
  Away from imports of these kinds the fix does settle the report. The conditions of the
  lemma are sufficient, not necessary: take a target whose node spans the quoted
  specifier text and that is reported with a fix for a non-empty extension. If the report
  is \<open>requireExt\<close> and the specifier text does not end in \<open>/\<close> (nor, for the extension \<open>.\<close>,
  in \<open>/.\<close>), or the report is \<open>forbidExt\<close> and the specifier text, less the separators at
  its end, does not end in the extension twice, then the fixed target is not reported.
\<close>

lemma fix_settles_report:
  assumes v: "verify readdirSync ctx t = Some d" and f: "report_fix d = Some f"
    and sp: "spansQuotedName t" and ne: "report_data_ext d \<noteq> []"
    and a: "report_messageId d = requireExt \<Longrightarrow>
              last (name t) \<noteq> CHR ''/'' \<and>
              \<not> (report_data_ext d = ''.'' \<and> suffix ''/.'' (name t))"
    and n: "report_messageId d = forbidExt \<Longrightarrow>
              \<not> suffix (report_data_ext d @ report_data_ext d)
                  (stripTrailingSlashes (name t))"
  shows "verify readdirSync ctx (fixedTarget t f) = None"
proof -
  from v obtain fp ext where fp: "filePath t = Some fp" "fp \<noteq> []"
    and sep: "hasPathSeparator (name t)"
    and det: "determineExt (extname fp) (getExistingExtensions readdirSync fp) = Some ext"
    and dec: "decide ctx (name t) (node t) (extname (name t))
           (getExistingExtensions readdirSync fp) ext = Some d"
    by (rule verify_SomeE)
  have fp': "filePath (fixedTarget t f) = Some fp" by (simp add: fixedTarget_fields fp)
  note again = verify_past_guards [OF fp' fp(2) det, of ctx]
  show ?thesis
  proof (cases "report_messageId d")
    case requireExt
    note facts = decide_requireExt [OF dec requireExt]
    from facts(3) f have f_eq: "f = insertTextBeforeRange
        (snd (node_range (node t)) - 1, snd (node_range (node t)) - 1) ext"
      by (simp split: if_splits)
    have fixed: "name (fixedTarget t f) = name t @ ext"
      using sp by (simp add: fixedTarget_fields applyFix_def f_eq insertTextBeforeRange_def
          spansQuotedName_def)
    from det obtain path where path: "extname path = ext"
      using determineExt_is_extname by blast
    have "extname (name t @ ext) = ext"
      using path ne sep a [OF requireExt] facts(2) by (intro requireExt_fixed) auto
    then have "decide ctx (name (fixedTarget t f)) (node (fixedTarget t f))
        (extname (name (fixedTarget t f))) (getExistingExtensions readdirSync fp) ext = None"
      using facts(1) by (simp add: fixed decide_None(1))
    with again show ?thesis by simp
  next
    case forbidExt
    note facts = decide_forbidExt [OF dec forbidExt]
    from v forbidExt ne obtain pre sl where nm: "name t = pre @ report_data_ext d @ sl"
      and sl: "\<forall>c\<in>set sl. c = CHR ''/''"
      and ext: "extname (name t) = report_data_ext d"
      and pre: "pre \<noteq> []" "last pre \<noteq> CHR ''/''"
      and le: "last (report_data_ext d) \<noteq> CHR ''/''"
      and fx: "report_fix d = None \<or> report_fix d =
        Some \<lparr>fix_range = (fst (node_range (node t)) + 1 + int (length pre),
                  fst (node_range (node t)) + 1 + int (length pre)
                    + int (length (report_data_ext d))),
              fix_text = []\<rparr>"
      by (rule forbidExt_parts)
    from fx f have f_eq: "f =
        \<lparr>fix_range = (fst (node_range (node t)) + 1 + int (length pre),
                  fst (node_range (node t)) + 1 + int (length pre)
                    + int (length (report_data_ext d))),
              fix_text = []\<rparr>"
      by simp
    have fixed: "name (fixedTarget t f) = pre @ sl"
      unfolding fixedTarget_fields applyFix_def f_eq
      by (subst (1 2) nm) (simp add: nat_add_distrib)
    have "extname (pre @ sl) \<noteq> report_data_ext d"
      using nm ext ne sl pre le n [OF forbidExt] by (rule forbidExt_fixed)
    then have "decide ctx (name (fixedTarget t f)) (node (fixedTarget t f))
        (extname (name (fixedTarget t f))) (getExistingExtensions readdirSync fp) ext = None"
      using facts(1,2) by (simp add: fixed decide_None(2))
    with again show ?thesis by simp
  qed
qed

lemma fix_settles_report_example:
  "verify project plainOptions (importOf ''/p/a.js'' ''./a'' 7) =
     Some \<lparr>report_node = \<lparr>node_range = (7, 12)\<rparr>, report_messageId = requireExt,
           report_data_ext = ''.js'',
           report_fix = Some \<lparr>fix_range = (11, 11), fix_text = ''.js''\<rparr>\<rparr> \<and>
   verify project plainOptions
     (fixedTarget (importOf ''/p/a.js'' ''./a'' 7)
        \<lparr>fix_range = (11, 11), fix_text = ''.js''\<rparr>) = None \<and>
   verify project neverOptions (importOf ''/p/a.js'' ''./a.js'' 7) =
     Some \<lparr>report_node = \<lparr>node_range = (7, 15)\<rparr>, report_messageId = forbidExt,
           report_data_ext = ''.js'',
           report_fix = Some \<lparr>fix_range = (11, 14), fix_text = []\<rparr>\<rparr> \<and>
   \<not> suffix ''.js.js'' (stripTrailingSlashes ''./a.js'') \<and>
   verify project neverOptions
     (fixedTarget (importOf ''/p/a.js'' ''./a.js'' 7)
        \<lparr>fix_range = (11, 14), fix_text = []\<rparr>) = None"
proof -
  have v1: "verify project plainOptions (importOf ''/p/a.js'' ''./a'' 7) =
     Some \<lparr>report_node = \<lparr>node_range = (7, 12)\<rparr>, report_messageId = requireExt,
           report_data_ext = ''.js'',
           report_fix = Some \<lparr>fix_range = (11, 11), fix_text = ''.js''\<rparr>\<rparr>"
    by code_simp
  have v2: "verify project neverOptions (importOf ''/p/a.js'' ''./a.js'' 7) =
     Some \<lparr>report_node = \<lparr>node_range = (7, 15)\<rparr>, report_messageId = forbidExt,
           report_data_ext = ''.js'',
           report_fix = Some \<lparr>fix_range = (11, 14), fix_text = []\<rparr>\<rparr>"
    by code_simp
  have tw: "\<not> suffix ''.js.js'' (stripTrailingSlashes ''./a.js'')" by code_simp
  have r1: "verify project plainOptions
     (fixedTarget (importOf ''/p/a.js'' ''./a'' 7)
        \<lparr>fix_range = (11, 11), fix_text = ''.js''\<rparr>) = None"
    by (rule fix_settles_report [OF v1]) (simp_all add: importOf_fields)
  have r2: "verify project neverOptions
     (fixedTarget (importOf ''/p/a.js'' ''./a.js'' 7)
        \<lparr>fix_range = (11, 14), fix_text = []\<rparr>) = None"
    by (rule fix_settles_report [OF v2]) (simp_all add: importOf_fields tw)
  from v1 v2 tw r1 r2 show ?thesis by (intro conjI)
qed

text \<open>
  C9, as stated, fails: \<open>extname\<close> skips the separators at the end of a path, so the extension
  of a specifier text need not be its suffix. For the import of \<open>./a.js/\<close> under \<open>never\<close>
  the extension is \<open>.js\<close>, its last index is 3 and not 7 - 3, and the removed range ends
  at offset 14, one before the closing quote at 15.
\<close>

theorem suffix_removal_counterexample:
  "verify project neverOptions (importOf ''/p/a.js'' ''./a.js/'' 7) =
     Some \<lparr>report_node = \<lparr>node_range = (7, 16)\<rparr>, report_messageId = forbidExt,
           report_data_ext = ''.js'',
           report_fix = Some \<lparr>fix_range = (11, 14), fix_text = []\<rparr>\<rparr> \<and>
   extname ''./a.js/'' = ''.js'' \<and>
   \<not> suffix ''.js'' ''./a.js/'' \<and>
   lastIndexOf ''./a.js/'' ''.js'' = 3 \<and>
   int (length ''./a.js/'') - int (length ''.js'') = 4 \<and>
   snd (node_range (node (importOf ''/p/a.js'' ''./a.js/'' 7))) - 1 = 15"
  by code_simp

text \<open>
  C9, amended. When a \<open>forbidExt\<close> report for a non-empty extension has a fix and the node
  spans the quoted specifier text: the extension is the extension of the specifier text,
  and the text is a prefix, the extension and the separators at its end; the last index
  of the extension is the length of that prefix, so it is not negative; the fix removes
  exactly the range of the extension, which starts behind the opening quote and ends
  before the closing quote, as many characters before it as there are separators at the
  end; and the fixed text is the prefix and those separators.
\<close>

theorem forbidExt_fix_removes_extension:
  assumes v: "verify readdirSync ctx t = Some d" and m: "report_messageId d = forbidExt"
    and f: "report_fix d = Some f" and ne: "report_data_ext d \<noteq> []"
    and sp: "spansQuotedName t"
  shows "let ext = report_data_ext d;
             sl = trailingSlashes (name t);
             k = length (name t) - length ext - length sl;
             start = fst (node_range (node t)) + 1 + int k
         in extname (name t) = ext \<and>
            name t = take k (name t) @ ext @ sl \<and>
            lastIndexOf (name t) ext = int k \<and>
            f = \<lparr>fix_range = (start, start + int (length ext)), fix_text = []\<rparr> \<and>
            snd (fix_range f) + int (length sl) = snd (node_range (node t)) - 1 \<and>
            applyFix (fst (node_range (node t)) + 1) (name t) f = take k (name t) @ sl"
proof -
  from v m ne obtain pre sl where nm: "name t = pre @ report_data_ext d @ sl"
    and sl_def: "sl = trailingSlashes (name t)"
    and ext: "extname (name t) = report_data_ext d"
    and li: "lastIndexOf (name t) (report_data_ext d) = int (length pre)"
    and fx: "report_fix d = None \<or> report_fix d =
      Some \<lparr>fix_range = (fst (node_range (node t)) + 1 + int (length pre),
                fst (node_range (node t)) + 1 + int (length pre)
                  + int (length (report_data_ext d))),
            fix_text = []\<rparr>"
    by (rule forbidExt_parts)
  define e where "e = report_data_ext d"
  have nm': "name t = pre @ e @ sl" using nm by (simp add: e_def)
  have k: "length (name t) - length e - length sl = length pre"
    by (subst nm') simp
  have tk: "take (length pre) (name t) = pre" by (subst nm') simp
  have f_eq: "f = \<lparr>fix_range = (fst (node_range (node t)) + 1 + int (length pre),
                fst (node_range (node t)) + 1 + int (length pre) + int (length e)),
            fix_text = []\<rparr>"
    using fx f by (simp add: e_def)
  have len: "int (length (name t)) = int (length pre) + int (length e) + int (length sl)"
    by (subst nm') simp
  have ap: "applyFix (fst (node_range (node t)) + 1) (name t) f = pre @ sl"
    unfolding applyFix_def f_eq by (subst (1 2) nm') (simp add: nat_add_distrib)
  have en: "snd (fix_range f) + int (length sl) = snd (node_range (node t)) - 1"
    using sp len by (simp add: spansQuotedName_def f_eq)
  show ?thesis
    unfolding Let_def sl_def [symmetric] e_def [symmetric] k tk
    using ext li nm' f_eq en ap by (simp add: e_def)
qed

theorem forbidExt_fix_removes_extension_witness:
  "verify project neverOptions (importOf ''/p/a.js'' ''./a.js/'' 7) =
     Some \<lparr>report_node = \<lparr>node_range = (7, 16)\<rparr>, report_messageId = forbidExt,
           report_data_ext = ''.js'',
           report_fix = Some \<lparr>fix_range = (11, 14), fix_text = []\<rparr>\<rparr> \<and>
   spansQuotedName (importOf ''/p/a.js'' ''./a.js/'' 7) \<and>
   trailingSlashes ''./a.js/'' = ''/'' \<and>
   lastIndexOf ''./a.js/'' ''.js'' = 3 \<and>
   applyFix 8 ''./a.js/'' \<lparr>fix_range = (11, 14), fix_text = []\<rparr> = ''./a/''"
proof -
  have v: "verify project neverOptions (importOf ''/p/a.js'' ''./a.js/'' 7) =
     Some \<lparr>report_node = \<lparr>node_range = (7, 16)\<rparr>, report_messageId = forbidExt,
           report_data_ext = ''.js'',
           report_fix = Some \<lparr>fix_range = (11, 14), fix_text = []\<rparr>\<rparr>"
    by code_simp
  have sp: "spansQuotedName (importOf ''/p/a.js'' ''./a.js/'' 7)"
    by (rule importOf_fields)
  have ts: "trailingSlashes ''./a.js/'' = ''/''" by code_simp
  from forbidExt_fix_removes_extension [OF v _ _ _ sp,
      of "\<lparr>fix_range = (11, 14), fix_text = []\<rparr>"]
  show ?thesis using v sp ts by (simp add: Let_def importOf_fields)
qed

subsection \<open>Virtual files\<close>

text \<open>
  C10. For a file name that starts with \<open><\<close> the visitor that \<open>create\<close> returns is empty:
  no target is verified and the run of the rule on the program makes no report.
\<close>

theorem virtual_file_is_skipped:
  assumes "startsWith (getFilename ctx) ''<''"
  shows "create readdirSync ctx = [] \<and> lint readdirSync ctx program = []"
  using assms by (simp add: create_def lint_def)

theorem virtual_file_is_skipped_witness:
  "startsWith ''<input>'' ''<'' \<and>
   lint project
     (plainOptions\<lparr>getFilename := ''<input>'',
        getImportExportTargets := (\<lambda>program. [importOf ''/p/a.js'' ''./a'' 7])\<rparr>)
     \<lparr>node_range = (0, 20)\<rparr> = [] \<and>
   lint project
     (plainOptions\<lparr>getImportExportTargets := (\<lambda>program. [importOf ''/p/a.js'' ''./a'' 7])\<rparr>)
     \<lparr>node_range = (0, 20)\<rparr> \<noteq> []"
proof -
  have h: "startsWith (getFilename (plainOptions\<lparr>getFilename := ''<input>'',
     getImportExportTargets := (\<lambda>program. [importOf ''/p/a.js'' ''./a'' 7])\<rparr>)) ''<''"
    by code_simp
  have r: "lint project
     (plainOptions\<lparr>getImportExportTargets := (\<lambda>program. [importOf ''/p/a.js'' ''./a'' 7])\<rparr>)
     \<lparr>node_range = (0, 20)\<rparr> \<noteq> []"
    by code_simp
  from virtual_file_is_skipped [OF h, of project "\<lparr>node_range = (0, 20)\<rparr>"] h r
  show ?thesis by simp
qed

end
